theory Spec2Isabelle
  imports Complex_Main "HOL-Library.Char_ord" "HOL-Library.List_Lexorder" "HOL-Library.Log_Nat"
begin

section \<open>Strings, as the Python string methods and regular expressions use them\<close>

text \<open>
  Texts are \<open>string\<close>s whose characters stand for the code points below 256.
  \<open>is_space\<close> is \<open>str.isspace\<close> on that range, which is also what \<open>\s\<close> matches in a
  \<open>str\<close> pattern and what \<open>str.strip()\<close> and \<open>str.split()\<close> remove; \<open>is_digit\<close> is
  \<open>\d\<close> (the decimal digits of that range are \<open>0\<close> to \<open>9\<close>); \<open>is_alpha\<close> is the class
  \<open>[a-zA-Z]\<close>.
\<close>

definition is_space :: "char \<Rightarrow> bool" where
  "is_space c = ((of_char c :: nat) \<in> {9, 10, 11, 12, 13, 28, 29, 30, 31, 32, 133, 160})"

definition is_digit :: "char \<Rightarrow> bool" where
  "is_digit c = (48 \<le> (of_char c :: nat) \<and> (of_char c :: nat) \<le> 57)"

definition is_alpha :: "char \<Rightarrow> bool" where
  "is_alpha c = ((65 \<le> (of_char c :: nat) \<and> (of_char c :: nat) \<le> 90) \<or>
                 (97 \<le> (of_char c :: nat) \<and> (of_char c :: nat) \<le> 122))"

text \<open>\<open>str.lower()\<close>: the upper-case letters below 256 are \<open>A\<close> to \<open>Z\<close> and 192 to 222
  without the multiplication sign 215; each has its lower-case form 32 places up.\<close>

definition lower_char :: "char \<Rightarrow> char" where
  "lower_char c =
     (let n = (of_char c :: nat)
      in if (65 \<le> n \<and> n \<le> 90) \<or> (192 \<le> n \<and> n \<le> 222 \<and> n \<noteq> 215)
         then char_of (n + 32) else c)"

definition lower :: "string \<Rightarrow> string" where
  "lower s = map lower_char s"

definition strip :: "string \<Rightarrow> string" where
  "strip s = rev (dropWhile is_space (rev (dropWhile is_space s)))"

text \<open>\<open>str.split()\<close> without argument: the maximal runs of non-space characters.\<close>

fun split_acc :: "string \<Rightarrow> string \<Rightarrow> string list" where
  "split_acc w [] = (if w = [] then [] else [w])"
| "split_acc w (c # cs) =
     (if is_space c then (if w = [] then split_acc [] cs else w # split_acc [] cs)
      else split_acc (w @ [c]) cs)"

definition split :: "string \<Rightarrow> string list" where
  "split s = split_acc [] s"

text \<open>\<open>sep.join(parts)\<close>.\<close>

fun join :: "string \<Rightarrow> string list \<Rightarrow> string" where
  "join sep [] = []"
| "join sep [p] = p"
| "join sep (p # q # ps) = p @ sep @ join sep (q # ps)"

text \<open>\<open>needle in s\<close> for strings.\<close>

fun contains :: "string \<Rightarrow> string \<Rightarrow> bool" where
  "contains needle [] = (needle = [])"
| "contains needle (c # cs) = (take (length needle) (c # cs) = needle \<or> contains needle cs)"

text \<open>\<open>int(s)\<close> on a run of decimal digits of any length, and \<open>str(n)\<close> on a natural
  number.\<close>

definition digit_val :: "char \<Rightarrow> int" where
  "digit_val c = int (of_char c) - 48"

definition int_of_digits :: "string \<Rightarrow> int" where
  "int_of_digits s = foldl (\<lambda>a c. 10 * a + digit_val c) 0 s"

fun str_nat :: "nat \<Rightarrow> string" where
  "str_nat n = (if n < 10 then [char_of (48 + n)] else str_nat (n div 10) @ [char_of (48 + n mod 10)])"

declare str_nat.simps [simp del]

subsection \<open>The three regular expressions of the source\<close>

text \<open>
  \<open>re.match(r'^(.*?)(?:\s*\.|\s){2,}(\d+)$', s)\<close>. The repeated group matches a dot after
  spaces or one space, so two or more repetitions match exactly the runs of at least two
  characters that are spaces or dots. \<open>$\<close> matches at the end and before a final newline;
  the digits then are the longest run of digits at that end. The lazy first group takes the
  shortest prefix that lets the rest match, so the leader is the longest run of spaces and
  dots before the digits; \<open>.\<close> does not match a newline, so the prefix has none.
  The result is \<open>(group(1), group(2))\<close>.
\<close>

definition is_leader :: "char \<Rightarrow> bool" where
  "is_leader c = (is_space c \<or> c = CHR ''.'')"

definition chop_newline :: "string \<Rightarrow> string" where
  "chop_newline s = (if s \<noteq> [] \<and> last s = CHR 0x0A then butlast s else s)"

definition toc_match :: "string \<Rightarrow> (string \<times> string) option" where
  "toc_match s =
     (let r = rev (chop_newline s);
          digits = rev (takeWhile is_digit r);
          r1 = dropWhile is_digit r;
          leader = takeWhile is_leader r1;
          label = rev (dropWhile is_leader r1)
      in if digits \<noteq> [] \<and> 2 \<le> length leader \<and> CHR 0x0A \<notin> set label
         then Some (label, digits) else None)"

text \<open>\<open>re.sub(r'^\d+[\.\s]*', '', s)\<close>: the pattern can only match at the start, where it
  takes the first run of digits and then every dot and space that follows.\<close>

definition strip_numeric_prefix :: "string \<Rightarrow> string" where
  "strip_numeric_prefix s =
     (case s of [] \<Rightarrow> []
      | c # cs \<Rightarrow> if is_digit c then dropWhile is_leader (dropWhile is_digit s) else s)"

text \<open>\<open>re.match(r"^(?:(\d{1,2}(?:\.\d{1,2})*))", s)\<close> succeeds exactly when \<open>s\<close> starts
  with a digit: everything after the first digit is optional.\<close>

definition pattern_match_re :: "string \<Rightarrow> bool" where
  "pattern_match_re s = (case s of [] \<Rightarrow> False | c # cs \<Rightarrow> is_digit c)"

text \<open>\<open>re.search(r'[a-zA-Z]', s)\<close>.\<close>

definition has_alpha :: "string \<Rightarrow> bool" where
  "has_alpha s = list_ex is_alpha s"

section \<open>Data model\<close>

text \<open>
  A line is the Python dict that \<open>parse_pdf_enhanced\<close> builds (\<open>text\<close>, \<open>size\<close>,
  \<open>font_family\<close>, \<open>bold\<close>, \<open>page_num\<close>, \<open>bbox\<close>), to which later stages add keys: a key
  that may be absent is an \<open>option\<close> field. Fields carry the prefix \<open>l_\<close>. Coordinates are
  finite doubles, modelled by the rational numbers they denote: comparing, sorting and
  looking them up is exact, and the one place that computes with them, line 83, rounds
  (see \<open>round_double\<close>).
\<close>

type_synonym bbox = "rat \<times> rat \<times> rat \<times> rat"

definition x0 :: "bbox \<Rightarrow> rat" where "x0 b = fst b"
definition y0 :: "bbox \<Rightarrow> rat" where "y0 b = fst (snd b)"
definition x1 :: "bbox \<Rightarrow> rat" where "x1 b = fst (snd (snd b))"

record line =
  l_text :: string
  l_size :: int
  l_font_family :: string
  l_bold :: bool
  l_page_num :: nat
  l_bbox :: bbox
  l_pattern_match :: "nat option"
  l_is_centered :: "nat option"
  l_indentation :: "rat option"
  l_font_family_encoded :: "int option"
  l_is_heading_prediction :: "nat option"
  l_level :: "string option"

text \<open>\<open>pages_content\<close> is the dict of \<open>parse_pdf_enhanced\<close>, whose keys are
  \<open>range(len(doc))\<close>: the list of its values, page \<open>k\<close> at index \<open>k\<close>.\<close>

type_synonym pages = "line list list"

definition get_page :: "pages \<Rightarrow> nat \<Rightarrow> line list" where
  \<comment> \<open>\<open>pages_content.get(k, [])\<close>\<close>
  "get_page pc k = (if k < length pc then pc ! k else [])"

text \<open>A TOC entry as line 60 appends it (\<open>text\<close>, \<open>page\<close>, \<open>indent\<close>), and as
  \<open>find_and_parse_toc\<close> returns it, with the key \<open>level\<close> that line 66 adds.\<close>

record raw_entry =
  r_text :: string
  r_page :: int
  r_indent :: rat

record toc_entry =
  t_text :: string
  t_page :: int
  t_indent :: rat
  t_level :: string

record outline_entry =
  o_level :: string
  o_text :: string
  o_page :: int

record doc_result =
  title :: string
  outline :: "outline_entry list"

datatype error = KeyError | ZeroDivisionError

section \<open>find_and_parse_toc\<close>

definition TOC_SYNONYMS :: "string list" where
  "TOC_SYNONYMS = [''table of contents'', ''contents'', ''toc'', ''outline'', ''index'',
                   ''summary'', ''document map'']"

text \<open>Lines 54 to 60: one line of a TOC page.\<close>

definition parse_toc_line :: "line \<Rightarrow> raw_entry option" where
  "parse_toc_line toc_line =
     (case toc_match (l_text toc_line) of
        None \<Rightarrow> None
      | Some (g1, g2) \<Rightarrow>
          Some \<lparr>r_text = strip_numeric_prefix (strip g1),
                r_page = int_of_digits g2 - 1,
                r_indent = x0 (l_bbox toc_line)\<rparr>)"

text \<open>Lines 52 to 60: the entries of the pages \<open>page_num\<close> to \<open>page_num + 4\<close>.\<close>

definition scan_toc_window :: "pages \<Rightarrow> nat \<Rightarrow> raw_entry list" where
  "scan_toc_window pc page_num =
     List.map_filter parse_toc_line
       (concat (map (get_page pc) [page_num ..< min (page_num + 5) (length pc)]))"

text \<open>Lines 63 to 66: \<open>indent_map\<close> sends the i-th smallest distinct indent to \<open>H{i+1}\<close>.\<close>

fun index_of :: "'a \<Rightarrow> 'a list \<Rightarrow> nat option" where
  "index_of x [] = None"
| "index_of x (y # ys) = (if x = y then Some 0 else map_option Suc (index_of x ys))"

definition level_tag :: "nat \<Rightarrow> string" where
  \<comment> \<open>\<open>f"H{i+1}"\<close>\<close>
  "level_tag i = ''H'' @ str_nat (i + 1)"

definition assign_toc_levels :: "raw_entry list \<Rightarrow> toc_entry list" where
  "assign_toc_levels toc_entries =
     (let indents = sort (remdups (map r_indent toc_entries))
      in map (\<lambda>entry. \<lparr>t_text = r_text entry, t_page = r_page entry, t_indent = r_indent entry,
                       t_level = (case index_of (r_indent entry) indents of
                                    None \<Rightarrow> ''H1'' | Some i \<Rightarrow> level_tag i)\<rparr>) toc_entries)"

definition is_toc_header :: "line list \<Rightarrow> bool" where
  \<comment> \<open>line 51, over \<open>lines[:3]\<close>\<close>
  "is_toc_header lines = list_ex (\<lambda>li. strip (lower (l_text li)) \<in> set TOC_SYNONYMS) (take 3 lines)"

text \<open>The loop of line 47 over the candidate pages. \<open>toc_entries\<close> is still empty
  whenever the loop goes on to the next page, so each header page starts from no entries.\<close>

fun toc_loop :: "pages \<Rightarrow> nat list \<Rightarrow> toc_entry list option" where
  "toc_loop pc [] = None"
| "toc_loop pc (page_num # rest) =
     (let lines = get_page pc page_num
      in if lines = [] then toc_loop pc rest
         else if is_toc_header lines
         then (let toc_entries = scan_toc_window pc page_num
               in if toc_entries \<noteq> [] then Some (assign_toc_levels toc_entries)
                  else toc_loop pc rest)
         else toc_loop pc rest)"

text \<open>\<open>int(len(pages_content) * 0.2)\<close> is \<open>len(pages_content) div 5\<close>: the double 0.2
  lies above one fifth by less than one part in \<open>10^16\<close>.\<close>

definition find_and_parse_toc :: "pages \<Rightarrow> toc_entry list option" where
  "find_and_parse_toc pc =
     (let max_page_to_scan = length pc div 5 + 3
      in toc_loop pc [0 ..< min max_page_to_scan (length pc)])"

section \<open>engineer_features_layout\<close>

text \<open>A loop whose body may raise: the first error ends it.\<close>

fun map_err :: "('a \<Rightarrow> error + 'b) \<Rightarrow> 'a list \<Rightarrow> error + 'b list" where
  "map_err f [] = Inr []"
| "map_err f (x # xs) =
     (case f x of Inl e \<Rightarrow> Inl e
      | Inr y \<Rightarrow> (case map_err f xs of Inl e \<Rightarrow> Inl e | Inr ys \<Rightarrow> Inr (y # ys)))"

text \<open>Line 80: \<open>pages_content[line['page_num']]\<close> raises \<open>KeyError\<close> on a missing page;
  the width is the right edge of the page's first line, or 1 on a page without lines.\<close>

definition page_width :: "pages \<Rightarrow> line \<Rightarrow> error + rat" where
  "page_width pc li =
     (if l_page_num li < length pc
      then (case pc ! l_page_num li of [] \<Rightarrow> Inr 1 | first # _ \<Rightarrow> Inr (x1 (l_bbox first)))
      else Inl KeyError)"

subsection \<open>Double arithmetic\<close>

text \<open>
  \<open>round_double q\<close> is the double nearest to \<open>q\<close>, ties to the even significand, with
  gradual underflow and without an upper bound on the exponent: the value that an
  operation on doubles returns when the exact result is \<open>q\<close>, as long as that value is below
  \<open>2^1024\<close> in magnitude (from there on the operation returns an infinity).
  \<open>binary_exponent q\<close> is the \<open>e\<close> with \<open>2^e \<le> |q| < 2^(e+1)\<close>.
\<close>

definition pow2 :: "int \<Rightarrow> rat" where
  "pow2 e = (if 0 \<le> e then 2 ^ nat e else 1 / 2 ^ nat (- e))"

definition round_half_even :: "rat \<Rightarrow> int" where
  "round_half_even r =
     (let f = \<lfloor>r\<rfloor>; d = r - of_int f
      in if d < 1 / 2 then f else if 1 / 2 < d then f + 1 else if even f then f else f + 1)"

definition binary_exponent :: "rat \<Rightarrow> int" where
  "binary_exponent q =
     (case quotient_of \<bar>q\<bar> of
        (a, b) \<Rightarrow> (let e = bitlen a - bitlen b in if pow2 e \<le> \<bar>q\<bar> then e else e - 1))"

definition round_double :: "rat \<Rightarrow> rat" where
  "round_double q =
     (if q = 0 then 0
      else (let ulp = pow2 (max (binary_exponent q) (- 1022) - 52)
            in of_int (round_half_even (q / ulp)) * ulp))"

text \<open>
  Line 83, \<open>1 if 0.4 < ((bbox[0] + bbox[2]) / 2 / page_width) < 0.6 else 0\<close>: the sum, its
  half and the quotient are each rounded to a double; the last division raises
  \<open>ZeroDivisionError\<close> on a width of zero; \<open>0.4\<close> and \<open>0.6\<close> are the doubles nearest to two
  and three fifths; both comparisons are strict. A sum that overflows (its rounded value
  has a binary exponent of 1024 or more) is an infinity, and so is the quotient: the result
  is 0.
\<close>

definition double_overflow :: "rat \<Rightarrow> bool" where
  "double_overflow s = (s \<noteq> 0 \<and> 1024 \<le> binary_exponent s)"

definition is_centered :: "bbox \<Rightarrow> rat \<Rightarrow> error + nat" where
  "is_centered b pw =
     (if pw = 0 then Inl ZeroDivisionError
      else (let s = round_double (x0 b + x1 b)
            in if double_overflow s then Inr 0
               else (let r = round_double (round_double (s / 2) / pw)
                     in Inr (if round_double 0.4 < r \<and> r < round_double 0.6 then 1 else 0))))"

text \<open>Lines 79 to 85, the body of the loop; \<open>font_families\<close> is the sorted list of the
  distinct families, and \<open>font_map\<close> sends each to its index.\<close>

definition annotate :: "pages \<Rightarrow> string list \<Rightarrow> line \<Rightarrow> error + line" where
  "annotate pc font_families li =
     (case page_width pc li of
        Inl e \<Rightarrow> Inl e
      | Inr pw \<Rightarrow>
          (case is_centered (l_bbox li) pw of
             Inl e \<Rightarrow> Inl e
           | Inr c \<Rightarrow>
               Inr (li\<lparr>l_pattern_match := Some (if pattern_match_re (l_text li) then 1 else 0),
                       l_is_centered := Some c,
                       l_indentation := Some (x0 (l_bbox li)),
                       l_font_family_encoded :=
                         Some (case index_of (l_font_family li) font_families of
                                 None \<Rightarrow> - 1 | Some i \<Rightarrow> int i)\<rparr>)))"

text \<open>The function updates the line dicts in place, and \<open>pages_content\<close> holds the same
  dicts: the model returns the updated \<open>pages_content\<close> with the list of all lines.\<close>

definition engineer_features_layout :: "pages \<Rightarrow> error + (pages \<times> line list)" where
  "engineer_features_layout pc =
     (let all_lines = concat pc
      in if all_lines = [] then Inr (pc, [])
         else (let font_families = sort (remdups (map l_font_family all_lines))
               in case map_err (map_err (annotate pc font_families)) pc of
                    Inl e \<Rightarrow> Inl e
                  | Inr pc' \<Rightarrow> Inr (pc', concat pc')))"

section \<open>stitch_multiline_headings\<close>

text \<open>A dict from bounding box to line, in insertion order: storing under a key that is
  present keeps the key's place and replaces the value.\<close>

type_synonym line_dict = "(bbox \<times> line) list"

fun dict_set :: "bbox \<Rightarrow> line \<Rightarrow> line_dict \<Rightarrow> line_dict" where
  "dict_set k v [] = [(k, v)]"
| "dict_set k v (p # ps) = (if fst p = k then (k, v) # ps else p # dict_set k v ps)"

type_synonym lines_map = "line_dict list"

definition get_dict :: "lines_map \<Rightarrow> nat \<Rightarrow> line_dict" where
  \<comment> \<open>\<open>all_lines_map.get(k, {})\<close>\<close>
  "get_dict m k = (if k < length m then m ! k else [])"

fun find_index :: "('a \<Rightarrow> bool) \<Rightarrow> 'a list \<Rightarrow> nat option" where
  "find_index P [] = None"
| "find_index P (x # xs) = (if P x then Some 0 else map_option Suc (find_index P xs))"

text \<open>Lines 115 to 119: the test on \<open>next_line\<close>; a line without the key
  \<open>is_heading_prediction\<close> counts as not predicted.\<close>

definition can_absorb :: "line \<Rightarrow> line \<Rightarrow> bool" where
  "can_absorb h next_line =
     (let is_potential_heading =
            ((case l_is_heading_prediction next_line of None \<Rightarrow> 0 | Some p \<Rightarrow> p) = 1)
      in length (split (l_text next_line)) < 7 \<and>
         \<not> l_bold next_line \<and>
         \<bar>l_size next_line - l_size h\<bar> \<le> 1 \<and>
         \<not> is_potential_heading)"

text \<open>The \<open>while\<close> loop of lines 113 to 124 over the lines after the heading, on the state
  \<open>(merged_text, processed_bboxes)\<close>.\<close>

fun absorb :: "line \<Rightarrow> line list \<Rightarrow> string \<times> (nat \<times> bbox) set \<Rightarrow> string \<times> (nat \<times> bbox) set" where
  "absorb h [] st = st"
| "absorb h (next_line # rest) (merged_text, processed_bboxes) =
     (if can_absorb h next_line
      then absorb h rest (merged_text @ '' '' @ l_text next_line,
                          insert (l_page_num next_line, l_bbox next_line) processed_bboxes)
      else (merged_text, processed_bboxes))"

definition sorted_page_lines :: "lines_map \<Rightarrow> nat \<Rightarrow> line list" where
  "sorted_page_lines m k = sort_key (\<lambda>x. y0 (l_bbox x)) (map snd (get_dict m k))"

text \<open>The \<open>for\<close> loop of lines 96 to 127, on the state \<open>processed_bboxes\<close>; the result is
  \<open>stitched_headings\<close>.\<close>

fun stitch_loop :: "lines_map \<Rightarrow> (nat \<times> bbox) set \<Rightarrow> line list \<Rightarrow> line list" where
  "stitch_loop m processed_bboxes [] = []"
| "stitch_loop m processed_bboxes (h # hs) =
     (if (l_page_num h, l_bbox h) \<in> processed_bboxes then stitch_loop m processed_bboxes hs
      else (let spl = sorted_page_lines m (l_page_num h)
            in case find_index (\<lambda>li. l_bbox li = l_bbox h) spl of
                 None \<Rightarrow> h # stitch_loop m processed_bboxes hs
               | Some current_line_index \<Rightarrow>
                   (case absorb h (drop (current_line_index + 1) spl) (l_text h, processed_bboxes) of
                      (merged_text, processed_bboxes') \<Rightarrow>
                        h\<lparr>l_text := merged_text\<rparr> # stitch_loop m processed_bboxes' hs)))"

definition stitch_multiline_headings :: "line list \<Rightarrow> lines_map \<Rightarrow> line list" where
  "stitch_multiline_headings headings all_lines_map =
     (if headings = [] then [] else stitch_loop all_lines_map {} headings)"

section \<open>nlp_sanity_check and assign_levels_by_font_size\<close>

definition keep_heading :: "line \<Rightarrow> bool" where
  \<comment> \<open>lines 136 to 138\<close>
  "keep_heading h =
     (has_alpha (l_text h) \<and> \<not> contains ''```'' (l_text h) \<and> length (split (l_text h)) < 25)"

fun nlp_sanity_check :: "line list \<Rightarrow> line list" where
  "nlp_sanity_check [] = []"
| "nlp_sanity_check (h # hs) =
     (if keep_heading h then h # nlp_sanity_check hs else nlp_sanity_check hs)"

definition assign_levels_by_font_size :: "line list \<Rightarrow> line list" where
  "assign_levels_by_font_size headings =
     (if headings = [] then []
      else (let sizes = rev (sort (remdups (map l_size headings)))
            in map (\<lambda>h. h\<lparr>l_level :=
                      Some (case index_of (l_size h) (take 3 sizes) of
                              None \<Rightarrow> ''H3'' | Some i \<Rightarrow> level_tag i)\<rparr>) headings))"

section \<open>process_document_definitive\<close>

text \<open>
  The input is \<open>pages_content\<close>, the result of \<open>parse_pdf_enhanced\<close> on the file, and the
  classifier: \<open>None\<close>, or the function from the six features of a row to its probability
  (\<open>model.predict\<close> scores each row of the batch by itself and returns the scores in row
  order). The result is the list of the lines printed, with the error raised or the object
  that \<open>json.dumps\<close> serialises.
\<close>

type_synonym feature_row = "int \<times> nat \<times> bool \<times> nat \<times> rat \<times> int"

definition LOG_TOC :: string where
  "LOG_TOC = ''INFO: Substantial Table of Contents found. Using ToC as primary source.''"

definition LOG_ML :: string where
  "LOG_ML = ''INFO: ToC not found or not substantial. Using ML inference model.''"

text \<open>Lines 159 and 181.\<close>

definition title_text :: "line list \<Rightarrow> string" where
  "title_text page_0_lines =
     (case page_0_lines of
        [] \<Rightarrow> ''Untitled''
      | p # ps \<Rightarrow>
          (let m = foldl max (l_size p) (map l_size ps)
           in join '' '' (map l_text (filter (\<lambda>l. l_size l = m) page_0_lines))))"

text \<open>Lines 173 to 177: the six columns of a row; a column that is missing is 0.\<close>

definition features :: "line \<Rightarrow> feature_row" where
  "features li =
     (l_size li,
      (case l_pattern_match li of None \<Rightarrow> 0 | Some v \<Rightarrow> v),
      l_bold li,
      (case l_is_centered li of None \<Rightarrow> 0 | Some v \<Rightarrow> v),
      (case l_indentation li of None \<Rightarrow> 0 | Some v \<Rightarrow> v),
      (case l_font_family_encoded li of None \<Rightarrow> 0 | Some v \<Rightarrow> v))"

definition predict :: "(feature_row \<Rightarrow> rat) \<Rightarrow> line list \<Rightarrow> line list" where
  \<comment> \<open>lines 177 and 178: the data frame with the column \<open>is_heading_prediction\<close>\<close>
  "predict mdl rows =
     map (\<lambda>li. li\<lparr>l_is_heading_prediction := Some (if 0.5 < mdl (features li) then 1 else 0)\<rparr>) rows"

definition dict_of_lines :: "line list \<Rightarrow> line_dict" where
  \<comment> \<open>\<open>{tuple(line['bbox']): line for line in lines}\<close>\<close>
  "dict_of_lines lines = foldl (\<lambda>d li. dict_set (l_bbox li) li d) [] lines"

definition to_entry :: "line \<Rightarrow> error + outline_entry" where
  \<comment> \<open>lines 193 to 197; \<open>h['level']\<close> raises \<open>KeyError\<close> on a heading without level\<close>
  "to_entry h =
     (case l_level h of
        None \<Rightarrow> Inl KeyError
      | Some lv \<Rightarrow> Inr \<lparr>o_level = lv, o_text = l_text h, o_page = int (l_page_num h)\<rparr>)"

definition toc_outline :: "toc_entry list \<Rightarrow> outline_entry list" where
  \<comment> \<open>line 161\<close>
  "toc_outline parsed_toc =
     map (\<lambda>e. \<lparr>o_level = t_level e, o_text = t_text e, o_page = t_page e\<rparr>) parsed_toc"

text \<open>Lines 185 to 197 on the classifier path: the outline entries before the final sort.\<close>

definition classifier_outline :: "pages \<Rightarrow> line list \<Rightarrow> error + outline_entry list" where
  "classifier_outline pc' df =
     (let all_lines_map = map dict_of_lines pc';
          heading_candidates = filter (\<lambda>r. l_is_heading_prediction r = Some 1) df;
          stitched_headings = stitch_multiline_headings heading_candidates all_lines_map;
          final_outline_with_levels = assign_levels_by_font_size stitched_headings;
          final_clean_outline = nlp_sanity_check final_outline_with_levels
      in map_err to_entry final_clean_outline)"

text \<open>Lines 165 to 200, the classifier path after its line is printed.\<close>

definition classifier_path :: "pages \<Rightarrow> (feature_row \<Rightarrow> rat) option \<Rightarrow> error + doc_result" where
  "classifier_path pc model =
     (case model of
        None \<Rightarrow> Inr \<lparr>title = ''Error: ML Model not provided for inference.'', outline = []\<rparr>
      | Some mdl \<Rightarrow>
          (case engineer_features_layout pc of
             Inl e \<Rightarrow> Inl e
           | Inr (pc', lines_with_features) \<Rightarrow>
               if lines_with_features = []
               then Inr \<lparr>title = ''Could not parse document'', outline = []\<rparr>
               else (case classifier_outline pc' (predict mdl lines_with_features) of
                       Inl e \<Rightarrow> Inl e
                     | Inr final_output \<Rightarrow>
                         Inr \<lparr>title = title_text (get_page pc' 0),
                              outline = sort_key o_page final_output\<rparr>)))"

text \<open>Lines 153 to 164, and the two paths.\<close>

definition process_document_definitive ::
    "pages \<Rightarrow> (feature_row \<Rightarrow> rat) option \<Rightarrow> string list \<times> (error + doc_result)" where
  "process_document_definitive pc model =
     (let parsed_toc = find_and_parse_toc pc
      in if (case parsed_toc of None \<Rightarrow> False | Some es \<Rightarrow> es \<noteq> [] \<and> 4 < length es)
         then ([LOG_TOC],
               Inr \<lparr>title = title_text (get_page pc 0),
                    outline = toc_outline (case parsed_toc of None \<Rightarrow> [] | Some es \<Rightarrow> es)\<rparr>)
         else ([LOG_ML], classifier_path pc model))"

section \<open>Example documents\<close>

text \<open>Lines 30 to 37: a line as \<open>parse_pdf_enhanced\<close> appends it, without the later keys.\<close>

definition raw_line :: "string \<Rightarrow> int \<Rightarrow> bool \<Rightarrow> nat \<Rightarrow> bbox \<Rightarrow> line" where
  "raw_line t s b p bb =
     \<lparr>l_text = t, l_size = s, l_font_family = ''Arial'', l_bold = b, l_page_num = p,
      l_bbox = bb, l_pattern_match = None, l_is_centered = None, l_indentation = None,
      l_font_family_encoded = None, l_is_heading_prediction = None, l_level = None\<rparr>"

text \<open>Two pages, the second a table of contents with four entries.\<close>

definition toc_doc4 :: pages where
  "toc_doc4 =
     [[raw_line ''My Report'' 24 True 0 (72, 100, 300, 130)],
      [raw_line ''Contents'' 18 True 1 (72, 50, 200, 70),
       raw_line ''1. Results ..... 9'' 12 False 1 (72, 100, 500, 112),
       raw_line ''1.2 Methods ..... 4'' 12 False 1 (90, 120, 500, 132),
       raw_line ''2 Intro . . . 3'' 12 False 1 (72, 140, 500, 152),
       raw_line ''Appendix  12'' 12 False 1 (72, 160, 500, 172)]]"

text \<open>A classifier that takes exactly the bold lines for headings, and what the
  classifier path returns for that document with it.\<close>

definition bold_model :: "feature_row \<Rightarrow> rat" where
  "bold_model f = (if fst (snd (snd f)) then 0.9 else 0.1)"

definition toc_doc4_classifier_result :: doc_result where
  "toc_doc4_classifier_result =
     \<lparr>title = ''My Report'',
      outline = [\<lparr>o_level = ''H1'', o_text = ''My Report'', o_page = 0\<rparr>,
                 \<lparr>o_level = ''H2'', o_text = ''Contents'', o_page = 1\<rparr>]\<rparr>"

text \<open>The same document with a fifth entry.\<close>

definition toc_doc5 :: pages where
  "toc_doc5 =
     [[raw_line ''My Report'' 24 True 0 (72, 100, 300, 130)],
      [raw_line ''Contents'' 18 True 1 (72, 50, 200, 70),
       raw_line ''1. Results ..... 9'' 12 False 1 (72, 100, 500, 112),
       raw_line ''1.2 Methods ..... 4'' 12 False 1 (90, 120, 500, 132),
       raw_line ''2 Intro . . . 3'' 12 False 1 (72, 140, 500, 152),
       raw_line ''Appendix  12'' 12 False 1 (72, 160, 500, 172),
       raw_line ''Index .. 15'' 12 False 1 (72, 180, 500, 192)]]"

definition toc_doc5_entries :: "toc_entry list" where
  "toc_doc5_entries =
     [\<lparr>t_text = ''Results'', t_page = 8, t_indent = 72, t_level = ''H1''\<rparr>,
      \<lparr>t_text = ''2 Methods'', t_page = 3, t_indent = 90, t_level = ''H2''\<rparr>,
      \<lparr>t_text = ''Intro'', t_page = 2, t_indent = 72, t_level = ''H1''\<rparr>,
      \<lparr>t_text = ''Appendix'', t_page = 11, t_indent = 72, t_level = ''H1''\<rparr>,
      \<lparr>t_text = ''Index'', t_page = 14, t_indent = 72, t_level = ''H1''\<rparr>]"

definition toc_doc5_outline :: "outline_entry list" where
  "toc_doc5_outline =
     [\<lparr>o_level = ''H1'', o_text = ''Results'', o_page = 8\<rparr>,
      \<lparr>o_level = ''H2'', o_text = ''2 Methods'', o_page = 3\<rparr>,
      \<lparr>o_level = ''H1'', o_text = ''Intro'', o_page = 2\<rparr>,
      \<lparr>o_level = ''H1'', o_text = ''Appendix'', o_page = 11\<rparr>,
      \<lparr>o_level = ''H1'', o_text = ''Index'', o_page = 14\<rparr>]"

text \<open>One page without table of contents: two short lines of size 14 and a line of body
  text; and a classifier that takes exactly the lines of size 14 for headings.\<close>

definition two_headings_doc :: pages where
  "two_headings_doc =
     [[raw_line ''Chapter One'' 14 False 0 (72, 100, 300, 114),
       raw_line ''Getting Started'' 14 False 0 (72, 120, 300, 134),
       raw_line ''This is the long body text of the first chapter here.'' 10 False 0
         (72, 150, 500, 160)]]"

definition size14_model :: "feature_row \<Rightarrow> rat" where
  "size14_model f = (if fst f = 14 then 0.9 else 0.1)"

text \<open>Two pages with headings of size 14 on both, and what the pipeline returns for them
  with that classifier.\<close>

definition two_page_doc :: pages where
  "two_page_doc =
     [[raw_line ''Overview'' 14 True 0 (72, 100, 300, 114),
       raw_line ''Some body text that is long enough to stay apart.'' 10 False 0
         (72, 120, 500, 130),
       raw_line ''Scope'' 14 True 0 (72, 200, 300, 214)],
      [raw_line ''Details'' 14 True 1 (72, 100, 300, 114)]]"

definition two_page_result :: doc_result where
  "two_page_result =
     \<lparr>title = ''Overview Scope'',
      outline = [\<lparr>o_level = ''H1'', o_text = ''Overview'', o_page = 0\<rparr>,
                 \<lparr>o_level = ''H1'', o_text = ''Scope'', o_page = 0\<rparr>,
                 \<lparr>o_level = ''H1'', o_text = ''Details'', o_page = 1\<rparr>]\<rparr>"

text \<open>A page whose only line spans from 1 to 5: its midpoint is at 0.6 of the width.\<close>

definition boundary_line :: line where
  "boundary_line = raw_line ''Title'' 12 False 0 (1, 0, 5, 10)"

definition boundary_doc :: pages where
  "boundary_doc = [[boundary_line]]"

text \<open>A page of width 10 with a line around the middle and a line on the left, and the
  two lines with the features that \<open>engineer_features_layout\<close> gives them.\<close>

definition centered_doc :: pages where
  "centered_doc =
     [[raw_line ''Middle'' 12 False 0 (0, 0, 10, 1), raw_line ''Left'' 12 False 0 (1, 2, 5, 3)]]"

definition centered_doc_lines :: "line list" where
  "centered_doc_lines =
     [(raw_line ''Middle'' 12 False 0 (0, 0, 10, 1))
        \<lparr>l_pattern_match := Some 0, l_is_centered := Some 1, l_indentation := Some 0,
         l_font_family_encoded := Some 0\<rparr>,
      (raw_line ''Left'' 12 False 0 (1, 2, 5, 3))
        \<lparr>l_pattern_match := Some 0, l_is_centered := Some 0, l_indentation := Some 1,
         l_font_family_encoded := Some 0\<rparr>]"






subsection \<open>Running the stitcher again\<close>








text \<open>Headings of the five sizes 24, 20, 18, 14 and 12.\<close>

definition five_sizes :: "line list" where
  "five_sizes =
     [raw_line ''a'' 14 False 0 (0, 0, 1, 1), raw_line ''b'' 24 False 0 (0, 2, 1, 3),
      raw_line ''c'' 12 False 0 (0, 4, 1, 5), raw_line ''d'' 18 False 0 (0, 6, 1, 7),
      raw_line ''e'' 20 False 0 (0, 8, 1, 9)]"

text \<open>\<open>str.isalpha\<close> on the code points below 256: the letters of \<open>a-z\<close> and \<open>A-Z\<close>, the
  ordinal indicators 170 and 186, the micro sign 181, and 192 to 255 without the
  multiplication sign 215 and the division sign 247. A text of two words made of such
  letters outside \<open>a-z\<close> and \<open>A-Z\<close>.\<close>

definition isalpha :: "char \<Rightarrow> bool" where
  "isalpha c =
     (let n = (of_char c :: nat)
      in (65 \<le> n \<and> n \<le> 90) \<or> (97 \<le> n \<and> n \<le> 122) \<or> n = 170 \<or> n = 181 \<or> n = 186 \<or>
         (192 \<le> n \<and> n \<le> 255 \<and> n \<noteq> 215 \<and> n \<noteq> 247))"

definition latin1_text :: string where
  "latin1_text = [CHR 0xE9, CHR 0xE8, CHR 0x20, CHR 0xC0]"

text \<open>Texts of 24 and of 25 words, and one without a letter.\<close>

definition words24 :: string where
  "words24 = ''a b c d e f g h i j k l m n o p q r s t u v w x''"

definition words25 :: string where
  "words25 = ''a b c d e f g h i j k l m n o p q r s t u v w x y''"

definition sanity_headings :: "line list" where
  "sanity_headings =
     [raw_line words25 12 False 0 (0, 0, 1, 1), raw_line words24 12 False 0 (0, 2, 1, 3),
      raw_line ''12345'' 12 False 0 (0, 4, 1, 5), raw_line ''Plain'' 12 False 0 (0, 6, 1, 7)]"

section \<open>Properties\<close>

lemma index_of_sorted_wrt:
  assumes "sorted_wrt R l" "x \<in> set l" "\<And>a b. R a b \<Longrightarrow> \<not> R b a"
  shows "index_of x l = Some (card {y \<in> set l. R y x})"
  using assms(1,2)
proof (induction l)
  case Nil
  then show ?case by simp
next
  case (Cons a l)
  have irr: "\<not> R a a" using assms(3) by blast
  show ?case
  proof (cases "x = a")
    case True
    have "{y \<in> set (a # l). R y a} = {}"
      using Cons.prems(1) assms(3) irr by auto
    then show ?thesis using True by simp
  next
    case False
    then have xl: "x \<in> set l" using Cons.prems by simp
    have sl: "sorted_wrt R l" using Cons.prems by simp
    have ax: "R a x" using Cons.prems(1) xl by simp
    have anl: "a \<notin> set l" using Cons.prems(1) irr by auto
    have "{y \<in> set (a # l). R y x} = insert a {y \<in> set l. R y x}"
      using ax by auto
    moreover have "a \<notin> {y \<in> set l. R y x}" using anl by simp
    ultimately have "card {y \<in> set (a # l). R y x} = Suc (card {y \<in> set l. R y x})"
      by simp
    then show ?thesis using False Cons.IH[OF sl xl] by simp
  qed
qed

lemma index_of_sort_remdups:
  fixes x :: "'a::linorder"
  assumes "x \<in> set xs"
  shows "index_of x (sort (remdups xs)) = Some (card {y \<in> set xs. y < x})"
proof -
  have "sorted_wrt (<) (sort (remdups xs))"
    by (simp add: strict_sorted_iff)
  from index_of_sorted_wrt[OF this, of x] assms show ?thesis by auto
qed

lemma index_of_rev_sort_remdups:
  fixes x :: "'a::linorder"
  assumes "x \<in> set xs"
  shows "index_of x (rev (sort (remdups xs))) = Some (card {y \<in> set xs. x < y})"
proof -
  have "sorted_wrt (<) (sort (remdups xs))"
    by (simp add: strict_sorted_iff)
  then have "sorted_wrt (\<lambda>a b. b < a) (rev (sort (remdups xs)))"
    by (simp add: sorted_wrt_rev)
  from index_of_sorted_wrt[OF this, of x] assms show ?thesis by auto
qed

lemma index_of_take:
  "index_of x (take n l) =
     (case index_of x l of None \<Rightarrow> None | Some i \<Rightarrow> if i < n then Some i else None)"
proof (induction l arbitrary: n)
  case Nil
  then show ?case by simp
next
  case (Cons a l)
  show ?case
  proof (cases n)
    case 0
    then show ?thesis by (simp split: option.splits)
  next
    case (Suc m)
    then show ?thesis using Cons.IH[of m] by (auto split: option.splits)
  qed
qed

lemma toc_loop_Some:
  "toc_loop pc ps = Some es \<Longrightarrow> \<exists>raw. raw \<noteq> [] \<and> es = assign_toc_levels raw"
  by (induction ps) (auto simp: Let_def split: if_splits)

lemma assign_toc_levels_level:
  assumes "e \<in> set (assign_toc_levels raw)"
  shows "t_level e = level_tag (card {i \<in> t_indent ` set (assign_toc_levels raw). i < t_indent e})"
proof -
  have img: "t_indent ` set (assign_toc_levels raw) = set (map r_indent raw)"
    by (force simp: assign_toc_levels_def Let_def)
  from assms obtain r where r: "r \<in> set raw"
    and e: "e = \<lparr>t_text = r_text r, t_page = r_page r, t_indent = r_indent r,
                 t_level = (case index_of (r_indent r) (sort (remdups (map r_indent raw))) of
                              None \<Rightarrow> ''H1'' | Some i \<Rightarrow> level_tag i)\<rparr>"
    by (auto simp: assign_toc_levels_def Let_def)
  have "r_indent r \<in> set (map r_indent raw)" using r by simp
  from index_of_sort_remdups[OF this] show ?thesis
    unfolding img by (simp add: e)
qed

lemma level_tag_values: "level_tag 0 = ''H1''" "level_tag 1 = ''H2''" "level_tag 2 = ''H3''"
  by code_simp+

lemma find_and_parse_toc_Some:
  "find_and_parse_toc pc = Some es \<Longrightarrow> \<exists>raw. raw \<noteq> [] \<and> es = assign_toc_levels raw"
  unfolding find_and_parse_toc_def Let_def by (rule toc_loop_Some)

text \<open>
  Claim C4. In the list that \<open>find_and_parse_toc\<close> returns, the level of an entry is
  \<open>H{k+1}\<close>, where \<open>k\<close> is the number of distinct indents of the list below the entry's
  indent: entries with the same indent have the same level, a larger indent has a larger
  rank, and with exactly two distinct indents every level is \<open>H1\<close> or \<open>H2\<close>, never \<open>H3\<close>.
\<close>

theorem toc_level_by_indent_rank:
  assumes "find_and_parse_toc pc = Some es" and "e \<in> set es"
  shows "t_level e = level_tag (card {i \<in> t_indent ` set es. i < t_indent e}) \<and>
         (\<forall>e' \<in> set es. t_indent e' = t_indent e \<longrightarrow> t_level e' = t_level e) \<and>
         (\<forall>e' \<in> set es. t_indent e < t_indent e' \<longrightarrow>
             card {i \<in> t_indent ` set es. i < t_indent e}
               < card {i \<in> t_indent ` set es. i < t_indent e'}) \<and>
         (card (t_indent ` set es) = 2 \<longrightarrow> t_level e = ''H1'' \<or> t_level e = ''H2'')"
proof -
  from assms(1) obtain raw where es: "es = assign_toc_levels raw"
    using find_and_parse_toc_Some by blast
  have lev: "\<And>a. a \<in> set es \<Longrightarrow>
      t_level a = level_tag (card {i \<in> t_indent ` set es. i < t_indent a})"
    unfolding es by (rule assign_toc_levels_level)
  let ?S = "t_indent ` set es"
  have fin: "finite ?S" by simp
  have same: "\<forall>e' \<in> set es. t_indent e' = t_indent e \<longrightarrow> t_level e' = t_level e"
    using lev assms(2) by simp
  have mono: "\<forall>e' \<in> set es. t_indent e < t_indent e' \<longrightarrow>
             card {i \<in> ?S. i < t_indent e} < card {i \<in> ?S. i < t_indent e'}"
  proof (intro ballI impI)
    fix e' assume e': "e' \<in> set es" and lt: "t_indent e < t_indent e'"
    have "t_indent e \<in> {i \<in> ?S. i < t_indent e'}" using assms(2) lt by simp
    moreover have "t_indent e \<notin> {i \<in> ?S. i < t_indent e}" by simp
    moreover have "{i \<in> ?S. i < t_indent e} \<subseteq> {i \<in> ?S. i < t_indent e'}"
      using lt by auto
    ultimately have "{i \<in> ?S. i < t_indent e} \<subset> {i \<in> ?S. i < t_indent e'}" by blast
    then show "card {i \<in> ?S. i < t_indent e} < card {i \<in> ?S. i < t_indent e'}"
      using fin by (intro psubset_card_mono) auto
  qed
  have two: "card ?S = 2 \<longrightarrow> t_level e = ''H1'' \<or> t_level e = ''H2''"
  proof
    assume c: "card ?S = 2"
    have "{i \<in> ?S. i < t_indent e} \<subset> ?S" using assms(2) by auto
    then have "card {i \<in> ?S. i < t_indent e} < card ?S"
      using fin by (intro psubset_card_mono) auto
    then have "card {i \<in> ?S. i < t_indent e} = 0 \<or> card {i \<in> ?S. i < t_indent e} = 1"
      using c by linarith
    then show "t_level e = ''H1'' \<or> t_level e = ''H2''"
      using lev[OF assms(2)] level_tag_values by metis
  qed
  show ?thesis using lev[OF assms(2)] same mono two by blast
qed

lemma assign_levels_map:
  "assign_levels_by_font_size hs =
     map (\<lambda>h. h\<lparr>l_level := Some (level_tag (min 2 (card {s \<in> l_size ` set hs. l_size h < s})))\<rparr>) hs"
proof (cases "hs = []")
  case True
  then show ?thesis by (simp add: assign_levels_by_font_size_def)
next
  case False
  have "\<And>h. h \<in> set hs \<Longrightarrow>
      (case index_of (l_size h) (take 3 (rev (sort (remdups (map l_size hs))))) of
         None \<Rightarrow> ''H3'' | Some i \<Rightarrow> level_tag i)
      = level_tag (min 2 (card {s \<in> l_size ` set hs. l_size h < s}))"
  proof -
    fix h assume "h \<in> set hs"
    then have "l_size h \<in> set (map l_size hs)" by simp
    from index_of_rev_sort_remdups[OF this]
    have ix: "index_of (l_size h) (rev (sort (remdups (map l_size hs))))
          = Some (card {s \<in> l_size ` set hs. l_size h < s})" by simp
    show "(case index_of (l_size h) (take 3 (rev (sort (remdups (map l_size hs))))) of
         None \<Rightarrow> ''H3'' | Some i \<Rightarrow> level_tag i)
      = level_tag (min 2 (card {s \<in> l_size ` set hs. l_size h < s}))"
    proof -
      define n where "n = card {s \<in> l_size ` set hs. l_size h < s}"
      consider "n = 0" | "n = 1" | "n = 2" | "3 \<le> n" by linarith
      then have "(case (if n < 3 then Some n else None) of
                    None \<Rightarrow> ''H3'' | Some i \<Rightarrow> level_tag i) = level_tag (min 2 n)"
        by cases (simp_all add: level_tag_values)
      then show ?thesis unfolding index_of_take ix n_def by simp
    qed
  qed
  then show ?thesis using False
    by (simp add: assign_levels_by_font_size_def Let_def)
qed

lemma assign_levels_range:
  assumes "h \<in> set (assign_levels_by_font_size hs)"
  shows "l_level h = Some ''H1'' \<or> l_level h = Some ''H2'' \<or> l_level h = Some ''H3''"
proof -
  from assms obtain g where
    "h = g\<lparr>l_level := Some (level_tag (min 2 (card {s \<in> l_size ` set hs. l_size g < s})))\<rparr>"
    unfolding assign_levels_map by auto
  then have lv: "l_level h = Some (level_tag (min 2 (card {s \<in> l_size ` set hs. l_size g < s})))"
    by simp
  define n where "n = min 2 (card {s \<in> l_size ` set hs. l_size g < s})"
  have "n = 0 \<or> n = 1 \<or> n = 2" unfolding n_def by linarith
  then show ?thesis using lv level_tag_values unfolding n_def[symmetric] by auto
qed

lemma set_nlp_sanity_check: "set (nlp_sanity_check hs) \<subseteq> set hs"
  by (induction hs) auto

lemma nlp_sanity_check_filter: "nlp_sanity_check hs = filter keep_heading hs"
  by (induction hs) auto

lemma map_err_Inr:
  "map_err f xs = Inr ys \<Longrightarrow> list_all2 (\<lambda>x y. f x = Inr y) xs ys"
  by (induction xs arbitrary: ys) (auto split: sum.splits)

lemma contains_iff: "contains needle s \<longleftrightarrow> (\<exists>pre suf. s = pre @ needle @ suf)"
proof (induction s)
  case Nil
  then show ?case by auto
next
  case (Cons c cs)
  show ?case
  proof
    assume "contains needle (c # cs)"
    then consider "take (length needle) (c # cs) = needle" | "contains needle cs" by auto
    then show "\<exists>pre suf. c # cs = pre @ needle @ suf"
    proof cases
      case 1
      then have "c # cs = [] @ needle @ drop (length needle) (c # cs)"
        by (metis append_Nil append_take_drop_id)
      then show ?thesis by blast
    next
      case 2
      then obtain pre suf where "cs = pre @ needle @ suf" using Cons.IH by blast
      then have "c # cs = (c # pre) @ needle @ suf" by simp
      then show ?thesis by blast
    qed
  next
    assume "\<exists>pre suf. c # cs = pre @ needle @ suf"
    then obtain pre suf where eq: "c # cs = pre @ needle @ suf" by blast
    show "contains needle (c # cs)"
    proof (cases pre)
      case Nil
      then have "take (length needle) (c # cs) = needle" using eq by simp
      then show ?thesis by simp
    next
      case (Cons p pre')
      then have "cs = pre' @ needle @ suf" using eq by simp
      then show ?thesis using Cons.IH by auto
    qed
  qed
qed

text \<open>
  Claim C9, amended. \<open>nlp_sanity_check\<close> keeps, in their order, exactly the headings whose
  text has a letter of \<open>a-z\<close> or \<open>A-Z\<close>, does not contain three backticks in a row, and has
  fewer than 25 words.
\<close>

theorem sanity_filter_keeps:
  "nlp_sanity_check hs =
     filter (\<lambda>h. (\<exists>c \<in> set (l_text h). is_alpha c) \<and>
                 (\<nexists>pre suf. l_text h = pre @ ''```'' @ suf) \<and>
                 length (split (l_text h)) < 25) hs"
proof -
  have "keep_heading = (\<lambda>h. (\<exists>c \<in> set (l_text h). is_alpha c) \<and>
                 (\<nexists>pre suf. l_text h = pre @ ''```'' @ suf) \<and>
                 length (split (l_text h)) < 25)"
    by (rule ext) (simp add: keep_heading_def has_alpha_def list_ex_iff contains_iff)
  then show ?thesis using nlp_sanity_check_filter by simp
qed

lemma log_distinct: "[LOG_TOC] \<noteq> [LOG_ML]"
  by (simp add: LOG_TOC_def LOG_ML_def)

text \<open>
  Claim C1. \<open>process_document_definitive\<close> takes the TOC path, and returns the outline made
  of the TOC entries, exactly when \<open>find_and_parse_toc\<close> returned a list of more than 4
  entries; otherwise it prints the line of the classifier path and returns what the
  classifier path computes.
\<close>

theorem toc_acceptance_threshold:
  "(fst (process_document_definitive pc model) = [LOG_TOC]
      \<longleftrightarrow> (\<exists>es. find_and_parse_toc pc = Some es \<and> 4 < length es)) \<and>
   (fst (process_document_definitive pc model) = [LOG_ML]
      \<longleftrightarrow> \<not> (\<exists>es. find_and_parse_toc pc = Some es \<and> 4 < length es)) \<and>
   (\<forall>es. find_and_parse_toc pc = Some es \<and> 4 < length es \<longrightarrow>
      snd (process_document_definitive pc model) =
        Inr \<lparr>title = title_text (get_page pc 0), outline = toc_outline es\<rparr>) \<and>
   (\<not> (\<exists>es. find_and_parse_toc pc = Some es \<and> 4 < length es) \<longrightarrow>
      process_document_definitive pc model = ([LOG_ML], classifier_path pc model))"
proof (cases "find_and_parse_toc pc")
  case None
  then show ?thesis using log_distinct
    by (simp add: process_document_definitive_def)
next
  case (Some es)
  show ?thesis
  proof (cases "4 < length es")
    case True
    then have "es \<noteq> []" by auto
    then show ?thesis using Some True log_distinct
      by (simp add: process_document_definitive_def)
  next
    case False
    then show ?thesis using Some log_distinct
      by (simp add: process_document_definitive_def)
  qed
qed

text \<open>A TOC of 4 entries goes to the classifier path, whose outline is made of the two bold
  lines; the same TOC with a fifth entry is accepted, with the same classifier.\<close>

theorem toc_acceptance_threshold_witness:
  "map_option length (find_and_parse_toc toc_doc4) = Some 4 \<and>
   process_document_definitive toc_doc4 (Some bold_model) =
     ([LOG_ML], Inr toc_doc4_classifier_result) \<and>
   map_option length (find_and_parse_toc toc_doc5) = Some 5 \<and>
   process_document_definitive toc_doc5 (Some bold_model) =
     ([LOG_TOC], Inr \<lparr>title = ''My Report'', outline = toc_doc5_outline\<rparr>)"
proof -
  have l4: "map_option length (find_and_parse_toc toc_doc4) = Some 4" by code_simp
  have l5: "map_option length (find_and_parse_toc toc_doc5) = Some 5" by code_simp
  have o5: "map_option toc_outline (find_and_parse_toc toc_doc5) = Some toc_doc5_outline"
    by code_simp
  have t5: "title_text (get_page toc_doc5 0) = ''My Report''" by code_simp
  have c4: "classifier_path toc_doc4 (Some bold_model) = Inr toc_doc4_classifier_result"
    by code_simp
  from l4 have n4: "\<not> (\<exists>es. find_and_parse_toc toc_doc4 = Some es \<and> 4 < length es)" by auto
  from l5 o5 obtain es where es: "find_and_parse_toc toc_doc5 = Some es \<and> 4 < length es"
    and oes: "toc_outline es = toc_doc5_outline" by auto
  note t4 = toc_acceptance_threshold[of toc_doc4 "Some bold_model"]
  note t5' = toc_acceptance_threshold[of toc_doc5 "Some bold_model"]
  have a: "process_document_definitive toc_doc4 (Some bold_model) =
     ([LOG_ML], Inr toc_doc4_classifier_result)"
    using t4[THEN conjunct2, THEN conjunct2, THEN conjunct2, rule_format, OF n4] c4 by simp
  have b1: "fst (process_document_definitive toc_doc5 (Some bold_model)) = [LOG_TOC]"
    using t5'[THEN conjunct1] es by blast
  have b2: "snd (process_document_definitive toc_doc5 (Some bold_model)) =
        Inr \<lparr>title = ''My Report'', outline = toc_doc5_outline\<rparr>"
    using t5'[THEN conjunct2, THEN conjunct2, THEN conjunct1, rule_format, OF es] t5 oes
    by simp
  have b: "process_document_definitive toc_doc5 (Some bold_model) =
     ([LOG_TOC], Inr \<lparr>title = ''My Report'', outline = toc_doc5_outline\<rparr>)"
    using b1 b2 by (simp add: prod_eq_iff)
  show ?thesis by (intro conjI l4 a l5 b)
qed

lemma toc_loop_no_lines: "concat pc = [] \<Longrightarrow> toc_loop pc ps = None"
proof (induction ps)
  case Nil
  then show ?case by simp
next
  case (Cons p ps)
  have "get_page pc p = []"
    using Cons.prems by (auto simp: get_page_def)
  then show ?case using Cons by simp
qed

text \<open>
  Claim C5. On the classifier path without a classifier the result is the object with the
  title \<open>Error: ML Model not provided for inference.\<close> and an empty outline; for a document
  without lines and with a classifier it is the object with the title
  \<open>Could not parse document\<close> and an empty outline. Neither raises.
\<close>

theorem recoverable_conditions:
  "(fst (process_document_definitive pc None) = [LOG_ML] \<longrightarrow>
      snd (process_document_definitive pc None) =
        Inr \<lparr>title = ''Error: ML Model not provided for inference.'', outline = []\<rparr>) \<and>
   (concat pc = [] \<longrightarrow>
      process_document_definitive pc (Some mdl) =
        ([LOG_ML], Inr \<lparr>title = ''Could not parse document'', outline = []\<rparr>))"
proof (intro conjI impI)
  assume "fst (process_document_definitive pc None) = [LOG_ML]"
  then show "snd (process_document_definitive pc None) =
        Inr \<lparr>title = ''Error: ML Model not provided for inference.'', outline = []\<rparr>"
    using log_distinct
    by (auto simp: process_document_definitive_def classifier_path_def Let_def split: if_splits)
next
  assume e: "concat pc = []"
  then have "find_and_parse_toc pc = None"
    by (simp add: find_and_parse_toc_def Let_def toc_loop_no_lines)
  moreover have "engineer_features_layout pc = Inr (pc, [])"
    using e by (simp add: engineer_features_layout_def)
  ultimately show "process_document_definitive pc (Some mdl) =
        ([LOG_ML], Inr \<lparr>title = ''Could not parse document'', outline = []\<rparr>)"
    by (simp add: process_document_definitive_def classifier_path_def)
qed

theorem recoverable_conditions_witness:
  "fst (process_document_definitive toc_doc4 None) = [LOG_ML] \<and>
   snd (process_document_definitive toc_doc4 None) =
     Inr \<lparr>title = ''Error: ML Model not provided for inference.'', outline = []\<rparr> \<and>
   concat [[], [] :: line list] = [] \<and>
   process_document_definitive [[], []] (Some size14_model) =
     ([LOG_ML], Inr \<lparr>title = ''Could not parse document'', outline = []\<rparr>)"
proof -
  have a: "fst (process_document_definitive toc_doc4 None) = [LOG_ML]" by code_simp
  have b: "concat [[], [] :: line list] = []" by simp
  show ?thesis
    using recoverable_conditions[of toc_doc4 size14_model] a
      recoverable_conditions[of "[[], []]" size14_model] b by blast
qed



text \<open>In the TOC of five entries with the indents 72 and 90, the entries at 72 are \<open>H1\<close>
  and the entry at 90 is \<open>H2\<close>.\<close>

theorem toc_level_by_indent_rank_witness:
  "find_and_parse_toc toc_doc5 = Some toc_doc5_entries \<and>
   toc_doc5_entries ! 1 \<in> set toc_doc5_entries \<and>
   card (t_indent ` set toc_doc5_entries) = 2 \<and>
   t_indent (toc_doc5_entries ! 0) < t_indent (toc_doc5_entries ! 1) \<and>
   t_level (toc_doc5_entries ! 0) = ''H1'' \<and>
   t_level (toc_doc5_entries ! 1) = ''H2'' \<and>
   (t_level (toc_doc5_entries ! 1) = ''H1'' \<or> t_level (toc_doc5_entries ! 1) = ''H2'')"
proof -
  have a: "find_and_parse_toc toc_doc5 = Some toc_doc5_entries" by code_simp
  have b: "toc_doc5_entries ! 1 \<in> set toc_doc5_entries" by code_simp
  have c: "card (t_indent ` set toc_doc5_entries) = 2" by code_simp
  have d: "t_indent (toc_doc5_entries ! 0) < t_indent (toc_doc5_entries ! 1)" by code_simp
  have e: "t_level (toc_doc5_entries ! 0) = ''H1''" "t_level (toc_doc5_entries ! 1) = ''H2''"
    by code_simp+
  have "t_level (toc_doc5_entries ! 1) = ''H1'' \<or> t_level (toc_doc5_entries ! 1) = ''H2''"
    using toc_level_by_indent_rank[OF a b] c by blast
  then show ?thesis using a b c d e by blast
qed

text \<open>
  Claim C2. The claim says that a line predicted as a heading is not absorbed. On the
  classifier path the lines that the stitcher inspects come from \<open>pages_content\<close>, which
  never carries the key \<open>is_heading_prediction\<close>: for two short lines of the same size, both
  predicted as headings, the second is absorbed into the first and the outline has one
  entry.
\<close>

theorem stitcher_absorbs_predicted_heading:
  "map_sum id (\<lambda>(pc', ls). map l_is_heading_prediction (predict size14_model ls))
       (engineer_features_layout two_headings_doc) = Inr [Some 1, Some 1, Some 0] \<and>
   process_document_definitive two_headings_doc (Some size14_model) =
     ([LOG_ML],
      Inr \<lparr>title = ''Chapter One Getting Started'',
           outline = [\<lparr>o_level = ''H1'', o_text = ''Chapter One Getting Started'',
                       o_page = 0\<rparr>]\<rparr>)"
  by code_simp

text \<open>
  Claim C6. The claim says that a leading numeric prefix such as \<open>1.2\<close> is removed from
  the label. For the line \<open>1.2 Methods ..... 4\<close> the entry has the page 3 and the indent of
  the line, and its text is \<open>2 Methods\<close>: only the first run of digits and the dot after
  it are removed.
\<close>

theorem numeric_prefix_partly_stripped:
  "parse_toc_line (raw_line ''1.2 Methods ..... 4'' 12 False 1 (90, 120, 500, 132)) =
     Some \<lparr>r_text = ''2 Methods'', r_page = 3, r_indent = 90\<rparr>"
  by code_simp

text \<open>Claim C3 as stated fails on the TOC path: the accepted TOC of five entries gives an
  outline whose pages are 8, 3, 2, 11, 14.\<close>

theorem toc_outline_not_sorted_counterexample:
  "process_document_definitive toc_doc5 None =
     ([LOG_TOC], Inr \<lparr>title = ''My Report'', outline = toc_doc5_outline\<rparr>) \<and>
   \<not> sorted (map o_page toc_doc5_outline)"
  by code_simp

text \<open>Claim C10 as stated fails at the ends of the interval: a line whose midpoint is at
  exactly 0.6 of the page width gets \<open>is_centered = 0\<close>.\<close>

theorem is_centered_boundary_counterexample:
  "page_width boundary_doc boundary_line = Inr 5 \<and>
   0.4 \<le> (x0 (l_bbox boundary_line) + x1 (l_bbox boundary_line)) / 2 / 5 \<and>
   (x0 (l_bbox boundary_line) + x1 (l_bbox boundary_line)) / 2 / 5 \<le> 0.6 \<and>
   map_sum id (\<lambda>(pc', ls). map l_is_centered ls) (engineer_features_layout boundary_doc)
     = Inr [Some 0]"
  by code_simp

lemma is_centered_Inr:
  assumes "is_centered b pw = Inr c"
  shows "pw \<noteq> 0 \<and>
         c = (if \<not> double_overflow (round_double (x0 b + x1 b)) \<and>
                 round_double 0.4 < round_double (round_double (round_double (x0 b + x1 b) / 2) / pw) \<and>
                 round_double (round_double (round_double (x0 b + x1 b) / 2) / pw) < round_double 0.6
              then 1 else 0)"
proof (cases "pw = 0")
  case True
  with assms show ?thesis unfolding is_centered_def by simp
next
  case False
  define s where "s = round_double (x0 b + x1 b)"
  define r where "r = round_double (round_double (s / 2) / pw)"
  define lo where "lo = round_double 0.4"
  define hi where "hi = round_double 0.6"
  have eq: "is_centered b pw =
      (if double_overflow s then Inr 0 else Inr (if lo < r \<and> r < hi then 1 else 0))"
    using False unfolding is_centered_def Let_def s_def r_def lo_def hi_def
    by (simp only: if_False)
  have "c = (if \<not> double_overflow s \<and> lo < r \<and> r < hi then 1 else 0)"
  proof (cases "double_overflow s")
    case True
    with assms eq have "c = 0" by (simp only: if_True sum.inject)
    with True show ?thesis by (simp only: simp_thms if_False)
  next
    case ov: False
    with assms eq have "c = (if lo < r \<and> r < hi then 1 else 0)"
      by (simp only: if_False sum.inject)
    with ov show ?thesis by (simp only: simp_thms)
  qed
  with False show ?thesis unfolding s_def r_def lo_def hi_def by (intro conjI)
qed

lemma annotate_Inr:
  assumes "annotate pc ff li = Inr li'"
  shows "\<exists>pw. page_width pc li = Inr pw \<and> pw \<noteq> 0 \<and>
           l_is_centered li' =
             Some (if \<not> double_overflow (round_double (x0 (l_bbox li) + x1 (l_bbox li))) \<and>
                      round_double 0.4 <
                        round_double (round_double
                          (round_double (x0 (l_bbox li) + x1 (l_bbox li)) / 2) / pw) \<and>
                      round_double (round_double
                          (round_double (x0 (l_bbox li) + x1 (l_bbox li)) / 2) / pw)
                        < round_double 0.6
                   then 1 else 0)"
proof -
  from assms obtain pw c where pw: "page_width pc li = Inr pw"
    and c: "is_centered (l_bbox li) pw = Inr c" and l: "l_is_centered li' = Some c"
    unfolding annotate_def by (auto split: sum.splits)
  from is_centered_Inr[OF c] pw l show ?thesis by blast
qed

lemma to_entry_level: "to_entry h = Inr e \<Longrightarrow> l_level h = Some (o_level e)"
  by (auto simp: to_entry_def split: option.splits)

lemma classifier_outline_levels:
  assumes "classifier_outline pc' df = Inr fo" and "e \<in> set fo"
  shows "o_level e = ''H1'' \<or> o_level e = ''H2'' \<or> o_level e = ''H3''"
proof -
  let ?hs = "nlp_sanity_check (assign_levels_by_font_size (stitch_multiline_headings
              (filter (\<lambda>r. l_is_heading_prediction r = Some 1) df) (map dict_of_lines pc')))"
  from assms(1) have "map_err to_entry ?hs = Inr fo"
    by (simp add: classifier_outline_def Let_def)
  then have "list_all2 (\<lambda>h y. to_entry h = Inr y) ?hs fo" by (rule map_err_Inr)
  then have len: "length ?hs = length fo" and nth: "\<And>i. i < length fo \<Longrightarrow> to_entry (?hs ! i) = Inr (fo ! i)"
    by (simp_all add: list_all2_conv_all_nth)
  from assms(2) obtain i where i: "i < length fo" "fo ! i = e"
    by (auto simp: in_set_conv_nth)
  define h where "h = ?hs ! i"
  have h: "h \<in> set ?hs" "to_entry h = Inr e"
    using i len nth[of i] by (simp_all add: h_def)
  from h(1) have "h \<in> set (assign_levels_by_font_size (stitch_multiline_headings
              (filter (\<lambda>r. l_is_heading_prediction r = Some 1) df) (map dict_of_lines pc')))"
    using set_nlp_sanity_check by blast
  from assign_levels_range[OF this] to_entry_level[OF h(2)] show ?thesis by simp
qed

lemma log_neq: "LOG_TOC \<noteq> LOG_ML"
  by (simp add: LOG_TOC_def LOG_ML_def)

lemma classifier_path_unfold:
  assumes "process_document_definitive pc model = ([LOG_ML], x)"
  shows "x = (case model of
                None \<Rightarrow> Inr \<lparr>title = ''Error: ML Model not provided for inference.'',
                              outline = []\<rparr>
              | Some mdl \<Rightarrow>
                  (case engineer_features_layout pc of
                     Inl e \<Rightarrow> Inl e
                   | Inr (pc', lines_with_features) \<Rightarrow>
                       if lines_with_features = []
                       then Inr \<lparr>title = ''Could not parse document'', outline = []\<rparr>
                       else (case classifier_outline pc' (predict mdl lines_with_features) of
                               Inl e \<Rightarrow> Inl e
                             | Inr final_output \<Rightarrow>
                                 Inr \<lparr>title = title_text (get_page pc' 0),
                                      outline = sort_key o_page final_output\<rparr>)))"
proof -
  from assms log_neq have "x = classifier_path pc model"
    by (simp add: process_document_definitive_def Let_def split: if_splits)
  then show ?thesis by (simp add: classifier_path_def)
qed

lemma classifier_path_cases:
  assumes "process_document_definitive pc model = ([LOG_ML], Inr r)"
  shows "outline r = [] \<or>
         (\<exists>mdl pc' lwf fo. model = Some mdl \<and> engineer_features_layout pc = Inr (pc', lwf) \<and>
             classifier_outline pc' (predict mdl lwf) = Inr fo \<and>
             outline r = sort_key o_page fo)"
proof (cases model)
  case None
  with classifier_path_unfold[OF assms] show ?thesis by simp
next
  case (Some mdl)
  show ?thesis
  proof (cases "engineer_features_layout pc")
    case (Inl e)
    with classifier_path_unfold[OF assms] Some show ?thesis by simp
  next
    case (Inr p)
    obtain pc' lwf where p: "p = (pc', lwf)" by (cases p)
    show ?thesis
    proof (cases "lwf = []")
      case True
      with classifier_path_unfold[OF assms] Some Inr p show ?thesis by simp
    next
      case False
      show ?thesis
      proof (cases "classifier_outline pc' (predict mdl lwf)")
        case (Inl e)
        with classifier_path_unfold[OF assms] Some Inr p False show ?thesis by simp
      next
        case fo: (Inr fo)
        with classifier_path_unfold[OF assms] Some Inr p False
        have "outline r = sort_key o_page fo" by simp
        with Some Inr p fo show ?thesis by blast
      qed
    qed
  qed
qed

text \<open>
  Claim C8. \<open>assign_levels_by_font_size\<close> gives each heading the level \<open>H{min(k,2)+1}\<close>,
  where \<open>k\<close> is the number of distinct sizes of the list above the heading's size: the
  three largest sizes get \<open>H1\<close>, \<open>H2\<close>, \<open>H3\<close> and every smaller size gets \<open>H3\<close>. Every level
  it assigns, and every level in an outline of the classifier path, is one of these three.
\<close>

theorem level_saturation:
  "assign_levels_by_font_size hs =
     map (\<lambda>h. h\<lparr>l_level :=
            Some (level_tag (min 2 (card {s \<in> l_size ` set hs. l_size h < s})))\<rparr>) hs \<and>
   (\<forall>h \<in> set (assign_levels_by_font_size hs).
      l_level h = Some ''H1'' \<or> l_level h = Some ''H2'' \<or> l_level h = Some ''H3'') \<and>
   (\<forall>r. process_document_definitive pc model = ([LOG_ML], Inr r) \<longrightarrow>
      list_all (\<lambda>e. o_level e = ''H1'' \<or> o_level e = ''H2'' \<or> o_level e = ''H3'') (outline r))"
proof (intro conjI allI impI ballI)
  show "assign_levels_by_font_size hs =
     map (\<lambda>h. h\<lparr>l_level :=
            Some (level_tag (min 2 (card {s \<in> l_size ` set hs. l_size h < s})))\<rparr>) hs"
    by (rule assign_levels_map)
next
  fix h assume "h \<in> set (assign_levels_by_font_size hs)"
  then show "l_level h = Some ''H1'' \<or> l_level h = Some ''H2'' \<or> l_level h = Some ''H3''"
    by (rule assign_levels_range)
next
  fix r assume "process_document_definitive pc model = ([LOG_ML], Inr r)"
  from classifier_path_cases[OF this]
  show "list_all (\<lambda>e. o_level e = ''H1'' \<or> o_level e = ''H2'' \<or> o_level e = ''H3'') (outline r)"
  proof (elim disjE exE conjE)
    assume "outline r = []"
    then show ?thesis by simp
  next
    fix mdl pc' lwf fo
    assume co: "classifier_outline pc' (predict mdl lwf) = Inr fo"
      and o: "outline r = sort_key o_page fo"
    have "\<And>e. e \<in> set fo \<Longrightarrow> o_level e = ''H1'' \<or> o_level e = ''H2'' \<or> o_level e = ''H3''"
      by (rule classifier_outline_levels[OF co])
    then show ?thesis unfolding o list_all_iff by simp
  qed
qed

text \<open>The sizes 14, 24, 12, 18, 20 get \<open>H3\<close>, \<open>H1\<close>, \<open>H3\<close>, \<open>H3\<close>, \<open>H2\<close>.\<close>

theorem level_saturation_witness:
  "map l_level (assign_levels_by_font_size five_sizes) =
     [Some ''H3'', Some ''H1'', Some ''H3'', Some ''H3'', Some ''H2''] \<and>
   process_document_definitive two_page_doc (Some size14_model) = ([LOG_ML], Inr two_page_result) \<and>
   outline two_page_result \<noteq> [] \<and>
   list_all (\<lambda>e. o_level e = ''H1'' \<or> o_level e = ''H2'' \<or> o_level e = ''H3'')
     (outline two_page_result)"
proof -
  have a: "map l_level (assign_levels_by_font_size five_sizes) =
     [Some ''H3'', Some ''H1'', Some ''H3'', Some ''H3'', Some ''H2'']" by code_simp
  have b: "process_document_definitive two_page_doc (Some size14_model)
             = ([LOG_ML], Inr two_page_result)" by code_simp
  have c: "outline two_page_result \<noteq> []" by (simp add: two_page_result_def)
  note t = level_saturation[of five_sizes two_page_doc "Some size14_model",
      THEN conjunct2, THEN conjunct2, rule_format, OF b]
  show ?thesis by (intro conjI a b c t)
qed

text \<open>Claim C9 as stated fails for letters outside \<open>a-z\<close> and \<open>A-Z\<close>: a text of two words
  made of accented letters, without backticks, is removed.\<close>

theorem accented_letters_removed_counterexample:
  "list_ex isalpha latin1_text \<and>
   \<not> contains ''```'' latin1_text \<and>
   length (split latin1_text) < 25 \<and>
   nlp_sanity_check [raw_line latin1_text 12 False 0 (0, 0, 1, 1)] = []"
  by code_simp

text \<open>A text of 25 words and a text without letters are removed, a text of 24 words is
  kept.\<close>

theorem sanity_filter_keeps_witness:
  "filter (\<lambda>h. (\<exists>c \<in> set (l_text h). is_alpha c) \<and>
               (\<nexists>pre suf. l_text h = pre @ ''```'' @ suf) \<and>
               length (split (l_text h)) < 25) sanity_headings =
     [raw_line words24 12 False 0 (0, 2, 1, 3), raw_line ''Plain'' 12 False 0 (0, 6, 1, 7)] \<and>
   length (split words25) = 25 \<and> length (split words24) = 24"
proof -
  have a: "nlp_sanity_check sanity_headings =
     [raw_line words24 12 False 0 (0, 2, 1, 3), raw_line ''Plain'' 12 False 0 (0, 6, 1, 7)]"
    by code_simp
  have b: "length (split words25) = 25 \<and> length (split words24) = 24" by code_simp
  have f: "filter (\<lambda>h. (\<exists>c \<in> set (l_text h). is_alpha c) \<and>
               (\<nexists>pre suf. l_text h = pre @ ''```'' @ suf) \<and>
               length (split (l_text h)) < 25) sanity_headings =
     [raw_line words24 12 False 0 (0, 2, 1, 3), raw_line ''Plain'' 12 False 0 (0, 6, 1, 7)]"
    unfolding sanity_filter_keeps[of sanity_headings, symmetric] by (rule a)
  show ?thesis by (intro conjI f b[THEN conjunct1] b[THEN conjunct2])
qed

text \<open>
  Claim C3, amended. On the classifier path the outline is sorted by ascending page, and
  the entries of each page are in the order of the classifier's list; on the TOC path the
  outline is the list of the TOC entries in parse order, not sorted.
\<close>

theorem outline_order:
  assumes "process_document_definitive pc model = (lg, Inr r)"
  shows "(lg = [LOG_TOC] \<longrightarrow>
            (\<exists>es. find_and_parse_toc pc = Some es \<and> outline r = toc_outline es)) \<and>
         (lg = [LOG_ML] \<longrightarrow>
            sorted (map o_page (outline r)) \<and>
            (outline r = [] \<or>
             (\<exists>mdl pc' lwf fo.
                 model = Some mdl \<and> engineer_features_layout pc = Inr (pc', lwf) \<and>
                 classifier_outline pc' (predict mdl lwf) = Inr fo \<and>
                 (\<forall>k. filter (\<lambda>e. o_page e = k) (outline r) = filter (\<lambda>e. o_page e = k) fo))))"
proof (intro conjI impI)
  assume lg: "lg = [LOG_TOC]"
  with assms have "fst (process_document_definitive pc model) = [LOG_TOC]" by simp
  then obtain es where es: "find_and_parse_toc pc = Some es" "es \<noteq> []" "4 < length es"
    using log_neq
    by (cases "find_and_parse_toc pc")
       (simp_all add: process_document_definitive_def Let_def split: if_splits)
  with assms have "outline r = toc_outline es"
    by (auto simp: process_document_definitive_def Let_def)
  with es show "\<exists>es. find_and_parse_toc pc = Some es \<and> outline r = toc_outline es" by blast
next
  assume lg: "lg = [LOG_ML]"
  from classifier_path_cases[OF assms[unfolded lg]]
  show "sorted (map o_page (outline r))"
  proof (elim disjE exE conjE)
    assume "outline r = []"
    then show ?thesis by simp
  next
    fix fo assume "outline r = sort_key o_page fo"
    then show ?thesis by simp
  qed
next
  assume lg: "lg = [LOG_ML]"
  from classifier_path_cases[OF assms[unfolded lg]]
  show "outline r = [] \<or>
             (\<exists>mdl pc' lwf fo.
                 model = Some mdl \<and> engineer_features_layout pc = Inr (pc', lwf) \<and>
                 classifier_outline pc' (predict mdl lwf) = Inr fo \<and>
                 (\<forall>k. filter (\<lambda>e. o_page e = k) (outline r) = filter (\<lambda>e. o_page e = k) fo))"
  proof (elim disjE exE conjE)
    assume "outline r = []"
    then show ?thesis by simp
  next
    fix mdl pc' lwf fo
    assume m: "model = Some mdl" and e: "engineer_features_layout pc = Inr (pc', lwf)"
      and co: "classifier_outline pc' (predict mdl lwf) = Inr fo"
      and o: "outline r = sort_key o_page fo"
    have "\<forall>k. filter (\<lambda>e. o_page e = k) (outline r) = filter (\<lambda>e. o_page e = k) fo"
      unfolding o by (simp add: sort_key_stable)
    with m e co show ?thesis by blast
  qed
qed

theorem outline_order_witness:
  "process_document_definitive two_page_doc (Some size14_model) = ([LOG_ML], Inr two_page_result) \<and>
   sorted (map o_page (outline two_page_result)) \<and>
   process_document_definitive toc_doc5 None =
     ([LOG_TOC], Inr \<lparr>title = ''My Report'', outline = toc_doc5_outline\<rparr>) \<and>
   map_option toc_outline (find_and_parse_toc toc_doc5) = Some toc_doc5_outline"
proof -
  have a: "process_document_definitive two_page_doc (Some size14_model)
             = ([LOG_ML], Inr two_page_result)" by code_simp
  have b: "process_document_definitive toc_doc5 None =
     ([LOG_TOC], Inr \<lparr>title = ''My Report'', outline = toc_doc5_outline\<rparr>)" by code_simp
  have c: "sorted (map o_page (outline two_page_result))"
    by (rule outline_order[OF a, THEN conjunct2, rule_format, OF refl, THEN conjunct1])
  from outline_order[OF b, THEN conjunct1, rule_format, OF refl]
  obtain es where "find_and_parse_toc toc_doc5 = Some es"
    and "outline \<lparr>title = ''My Report'', outline = toc_doc5_outline\<rparr> = toc_outline es"
    by (elim exE conjE)
  then have d: "map_option toc_outline (find_and_parse_toc toc_doc5) = Some toc_doc5_outline"
    by simp
  show ?thesis by (intro conjI a b c d)
qed

lemma list_all2_concat:
  "list_all2 (list_all2 R) xss yss \<Longrightarrow> list_all2 R (concat xss) (concat yss)"
  by (induction xss yss rule: list_all2_induct) (auto intro: list_all2_appendI)

text \<open>
  Claim C10, amended. When \<open>engineer_features_layout\<close> returns, every line has a page
  width other than zero (the right edge of the first line of its page, or 1 for a page
  without lines) and \<open>is_centered\<close> is 1 exactly when the quotient that line 83 computes
  in double arithmetic, the sum of the two edges, halved, divided by that width, each
  result rounded to a double, lies strictly between the doubles 0.4 and 0.6 and the sum did
  not overflow.
\<close>

theorem is_centered_strict:
  assumes "engineer_features_layout pc = Inr (pc', ls)"
  shows "list_all2
           (\<lambda>li li'. \<exists>pw. page_width pc li = Inr pw \<and> pw \<noteq> 0 \<and>
              l_is_centered li' =
                Some (if \<not> double_overflow (round_double (x0 (l_bbox li) + x1 (l_bbox li))) \<and>
                      round_double 0.4 <
                        round_double (round_double
                          (round_double (x0 (l_bbox li) + x1 (l_bbox li)) / 2) / pw) \<and>
                      round_double (round_double
                          (round_double (x0 (l_bbox li) + x1 (l_bbox li)) / 2) / pw)
                        < round_double 0.6
                   then 1 else 0))
           (concat pc) ls"
proof (cases "concat pc = []")
  case True
  with assms have "ls = []"
    by (simp add: engineer_features_layout_def del: concat_eq_Nil_conv)
  with True show ?thesis by simp
next
  case False
  define ff where "ff = sort (remdups (map l_font_family (concat pc)))"
  from assms False
  have "(case map_err (map_err (annotate pc ff)) pc of
           Inl e \<Rightarrow> Inl e | Inr pc'' \<Rightarrow> Inr (pc'', concat pc'')) = Inr (pc', ls)"
    by (simp add: engineer_features_layout_def Let_def ff_def del: concat_eq_Nil_conv)
  then have m: "map_err (map_err (annotate pc ff)) pc = Inr pc'" and ls: "ls = concat pc'"
    by (simp_all split: sum.splits)
  from map_err_Inr[OF m]
  have "list_all2 (list_all2 (\<lambda>li li'. annotate pc ff li = Inr li')) pc pc'"
    by (rule list_all2_mono) (rule map_err_Inr)
  then have "list_all2 (\<lambda>li li'. annotate pc ff li = Inr li') (concat pc) ls"
    unfolding ls by (rule list_all2_concat)
  then show ?thesis
    by (rule list_all2_mono) (rule annotate_Inr)
qed

theorem is_centered_strict_witness:
  "engineer_features_layout centered_doc = Inr ([centered_doc_lines], centered_doc_lines) \<and>
   map l_is_centered centered_doc_lines = [Some 1, Some 0] \<and>
   list_all2
     (\<lambda>li li'. \<exists>pw. page_width centered_doc li = Inr pw \<and> pw \<noteq> 0 \<and>
        l_is_centered li' =
          Some (if \<not> double_overflow (round_double (x0 (l_bbox li) + x1 (l_bbox li))) \<and>
                      round_double 0.4 <
                        round_double (round_double
                          (round_double (x0 (l_bbox li) + x1 (l_bbox li)) / 2) / pw) \<and>
                      round_double (round_double
                          (round_double (x0 (l_bbox li) + x1 (l_bbox li)) / 2) / pw)
                        < round_double 0.6
                   then 1 else 0))
     (concat centered_doc) centered_doc_lines"
proof -
  have a: "engineer_features_layout centered_doc = Inr ([centered_doc_lines], centered_doc_lines)"
    by code_simp
  have b: "map l_is_centered centered_doc_lines = [Some 1, Some 0]" by code_simp
  show ?thesis by (intro conjI a b is_centered_strict[OF a])
qed

subsection \<open>Rounding to doubles\<close>

lemma round_double_examples:
  "round_double 0.4 = 3602879701896397 / 9007199254740992"
  "round_double 0.6 = 5404319552844595 / 9007199254740992"
  "round_double (1 / 3) = 6004799503160661 / 18014398509481984"
  "round_double (400 + 1 / 2 ^ 50) = 400"
  by code_simp+

text \<open>On a page of width 500 a line from \<open>2^-50\<close> to 400 has an exact ratio above two
  fifths, and a line from \<open>-2^-50\<close> to 600 one below three fifths; in doubles the ratios are
  the doubles 0.4 and 0.6, and neither line is centered. A line over the whole width is.\<close>

lemma is_centered_examples:
  "is_centered (1 / 2 ^ 50, 0, 400, 1) 500 = Inr 0"
  "is_centered (- (1 / 2 ^ 50), 0, 600, 1) 500 = Inr 0"
  "is_centered (0, 0, 500, 1) 500 = Inr 1"
  "is_centered (0, 0, 500, 1) 0 = Inl ZeroDivisionError"
  by code_simp+

section \<open>Running the stitcher on its own result\<close>

subsection \<open>The loop in terms of the absorbed runs\<close>






subsection \<open>Lists\<close>









subsection \<open>The lookup\<close>






subsection \<open>After the first run nothing is left to absorb\<close>











end
